theory Spec2Isabelle
  imports Main "HOL-Library.Sublist"
begin

section \<open>SSH Operations Hub: the dispatch core of ssh_operations_hub.py\<close>

text \<open>
  Python strings are modelled as HOL strings restricted to ASCII text: a \<open>char\<close> is
  one code point below 128.  The character classes below are the ASCII part of the
  classes Python uses (\<open>str.isdigit\<close>, \<open>str.isspace\<close>, the blanks skipped by
  \<open>int()\<close>).
\<close>

subsection \<open>Python string primitives\<close>

definition newline :: char where
  "newline = CHR 0x0A"

definition quote :: char where
  "quote = CHR 0x27"

text \<open>\<open>c.isdigit()\<close> on ASCII: the characters 0 to 9.\<close>

definition is_digit :: "char \<Rightarrow> bool" where
  "is_digit c \<longleftrightarrow> 48 \<le> (of_char c :: nat) \<and> (of_char c :: nat) \<le> 57"

text \<open>\<open>c.isspace()\<close> on ASCII: tab, line feed, vertical tab, form feed, carriage
  return, the four separators 0x1C to 0x1F, and the space.\<close>

definition is_space :: "char \<Rightarrow> bool" where
  "is_space c \<longleftrightarrow>
     (9 \<le> (of_char c :: nat) \<and> (of_char c :: nat) \<le> 13) \<or>
     (28 \<le> (of_char c :: nat) \<and> (of_char c :: nat) \<le> 32)"

text \<open>\<open>s.isdigit()\<close>: false on the empty string.\<close>

definition str_isdigit :: "string \<Rightarrow> bool" where
  "str_isdigit s \<longleftrightarrow> s \<noteq> [] \<and> list_all is_digit s"

text \<open>\<open>s.strip()\<close> and \<open>s.rstrip(chars)\<close>.\<close>

definition str_strip :: "string \<Rightarrow> string" where
  "str_strip s = rev (dropWhile is_space (rev (dropWhile is_space s)))"

definition str_rstrip :: "string \<Rightarrow> string \<Rightarrow> string" where
  "str_rstrip chars s = rev (dropWhile (\<lambda>c. c \<in> set chars) (rev s))"

text \<open>\<open>s.split(sep)\<close> for a one-character separator: the result is never empty,
  \<open>''''.split(sep)\<close> is the list holding the empty string.\<close>

fun str_split :: "char \<Rightarrow> string \<Rightarrow> string list" where
  "str_split sep [] = [[]]"
| "str_split sep (c # cs) =
     (if c = sep then [] # str_split sep cs
      else (case str_split sep cs of
              [] \<Rightarrow> [[c]]
            | w # ws \<Rightarrow> (c # w) # ws))"

text \<open>\<open>s.split(sep, 1)\<close>: cut at the first separator only.\<close>

definition str_split1 :: "char \<Rightarrow> string \<Rightarrow> string list" where
  "str_split1 sep s =
     (if sep \<in> set s
      then [takeWhile (\<lambda>c. c \<noteq> sep) s, tl (dropWhile (\<lambda>c. c \<noteq> sep) s)]
      else [s])"

text \<open>\<open>sep.join(xs)\<close>.\<close>

fun str_join :: "string \<Rightarrow> string list \<Rightarrow> string" where
  "str_join sep [] = []"
| "str_join sep [x] = x"
| "str_join sep (x # y # ys) = x @ sep @ str_join sep (y # ys)"

text \<open>\<open>s.replace(old, new)\<close>: the non-overlapping occurrences of \<open>old\<close>, found
  scanning from the left, are each replaced.  With an empty \<open>old\<close> Python puts
  \<open>new\<close> before every character and at the end.\<close>

function replace_scan :: "string \<Rightarrow> string \<Rightarrow> string \<Rightarrow> string" where
  "replace_scan old new [] = []"
| "replace_scan old new (c # cs) =
     (if old \<noteq> [] \<and> prefix old (c # cs)
      then new @ replace_scan old new (drop (length old) (c # cs))
      else c # replace_scan old new cs)"
  by pat_completeness auto
termination
  by (relation "measure (\<lambda>(old, new, s). length s)") (auto simp: neq_Nil_conv)

definition str_replace :: "string \<Rightarrow> string \<Rightarrow> string \<Rightarrow> string" where
  "str_replace old new s =
     (if old = [] then new @ concat (map (\<lambda>c. c # new) s)
      else replace_scan old new s)"

subsection \<open>Task construction\<close>

text \<open>\<open>_substitute_variables\<close>: \<open>text.replace('$CLIENT_NUM', client_num)\<close>.\<close>

definition placeholder :: string where
  "placeholder = ''$CLIENT_NUM''"

definition substitute_variables :: "string \<Rightarrow> string \<Rightarrow> string" where
  "substitute_variables text client_num = str_replace placeholder client_num text"

text \<open>\<open>ip.split('.')[-1]\<close>: the last dot-separated segment of a host address.\<close>

definition client_num_of :: "string \<Rightarrow> string" where
  "client_num_of ip = last (str_split (CHR ''.'') ip)"

text \<open>A task is the triple \<open>(user, ip, cmd)\<close> appended by \<open>execute_commands\<close>.\<close>

type_synonym task = "string \<times> string \<times> string"

text \<open>One pass of a task loop: \<open>tasks.append((user, ip, cmd))\<close> for each host.\<close>

fun add_tasks :: "string \<Rightarrow> string \<Rightarrow> string list \<Rightarrow> task list \<Rightarrow> task list" where
  "add_tasks user_tmpl command [] tasks = tasks"
| "add_tasks user_tmpl command (ip # ips) tasks =
     add_tasks user_tmpl command ips
       (tasks @ [(substitute_variables user_tmpl (client_num_of ip), ip,
                  substitute_variables command (client_num_of ip))])"

text \<open>The task list of \<open>execute_commands\<close>: the primary loop, then the secondary
  loop, both appending to the same list.\<close>

definition build_tasks ::
  "string list \<Rightarrow> string list \<Rightarrow> string \<Rightarrow> string \<Rightarrow> string \<Rightarrow> task list" where
  "build_tasks primary_ips secondary_ips primary_user secondary_user command =
     add_tasks secondary_user command secondary_ips
       (add_tasks primary_user command primary_ips [])"


subsection \<open>Integers and text: \<open>int()\<close> and \<open>str()\<close>\<close>

datatype py_exception =
    ValueError
  | TimeoutExpired
  | CalledProcessError int string
  | OSError
  | FuturesTimeoutError

text \<open>The blanks \<open>int()\<close> skips at both ends of its argument; on ASCII these are the
  six characters tab to carriage return and the space (not the separators 0x1C to
  0x1F that \<open>strip()\<close> removes).\<close>

definition int_space :: "char \<Rightarrow> bool" where
  "int_space c \<longleftrightarrow>
     (9 \<le> (of_char c :: nat) \<and> (of_char c :: nat) \<le> 13) \<or> (of_char c :: nat) = 32"

definition digit_val :: "char \<Rightarrow> nat" where
  "digit_val c = (of_char c :: nat) - 48"

definition digits_val :: "string \<Rightarrow> nat" where
  "digits_val s = foldl (\<lambda>acc c. 10 * acc + digit_val c) 0 s"

text \<open>The digits of a base-10 literal: at least one digit, and single underscores
  allowed between digits only.\<close>

fun int_body_ok :: "string \<Rightarrow> bool" where
  "int_body_ok [] = False"
| "int_body_ok [c] = is_digit c"
| "int_body_ok (c # d # cs) =
     (is_digit c \<and> (if d = CHR ''_'' then int_body_ok cs else int_body_ok (d # cs)))"

definition int_body_val :: "string \<Rightarrow> int" where
  "int_body_val s = int (digits_val (filter (\<lambda>c. c \<noteq> CHR ''_'') s))"

text \<open>The interpreter refuses to convert a literal of more digits than
  \<open>sys.get_int_max_str_digits()\<close>, which is 4300 unless reconfigured.  Signs, blanks
  and underscores do not count, leading zeros do.\<close>

definition int_max_str_digits :: nat where
  "int_max_str_digits = 4300"

definition int_literal :: "string \<Rightarrow> int option" where
  "int_literal body =
     (if int_body_ok body \<and>
         length (filter (\<lambda>c. c \<noteq> CHR ''_'') body) \<le> int_max_str_digits
      then Some (int_body_val body) else None)"

text \<open>\<open>int(s)\<close> in base 10, \<open>None\<close> standing for the \<open>ValueError\<close> it raises:
  surrounding blanks are skipped, one sign is allowed, then the digits, at most
  \<open>int_max_str_digits\<close> of them.  Integers themselves are unbounded, as in Python.\<close>

definition py_int :: "string \<Rightarrow> int option" where
  "py_int s =
     (case rev (dropWhile int_space (rev (dropWhile int_space s))) of
        [] \<Rightarrow> None
      | c # cs \<Rightarrow>
          if c = CHR ''-'' then map_option uminus (int_literal cs)
          else if c = CHR ''+'' then int_literal cs
          else int_literal (c # cs))"

definition digit_char :: "nat \<Rightarrow> char" where
  "digit_char n = char_of (48 + n)"

fun str_nat :: "nat \<Rightarrow> string" where
  "str_nat n = (if n < 10 then [digit_char n] else str_nat (n div 10) @ [digit_char (n mod 10)])"

declare str_nat.simps [simp del]

text \<open>\<open>str(i)\<close> for an integer.\<close>

definition str_int :: "int \<Rightarrow> string" where
  "str_int i = (if i < 0 then CHR ''-'' # str_nat (nat (- i)) else str_nat (nat i))"

subsection \<open>Host Validator\<close>

text \<open>The hub object, as far as the validated operations read it.\<close>

record hub =
  ip_prefix :: string
  allowed_ips :: "string list"
  ssh_options :: "string list"

text \<open>The guarded block of \<open>_expand_range\<close>: \<open>Some\<close> is the value it returns,
  \<open>None\<close> means control falls through to the last line, either because the range
  is descending or because a \<open>ValueError\<close> (from \<open>int()\<close> or from unpacking) was
  caught and passed.\<close>

definition range_block :: "string \<Rightarrow> string list option" where
  "range_block range_str =
     (case str_split1 (CHR ''-'') range_str of
        [start, end'] \<Rightarrow>
          (case py_int start of
             None \<Rightarrow> None
           | Some start_num \<Rightarrow>
               (case py_int end' of
                  None \<Rightarrow> None
                | Some end_num \<Rightarrow>
                    if start_num \<le> end_num
                    then Some (map str_int [start_num..end_num])
                    else None))
      | _ \<Rightarrow> None)"

definition expand_range :: "string \<Rightarrow> string list" where
  "expand_range range_str =
     (case (if CHR ''-'' \<in> set range_str then range_block range_str else None) of
        Some r \<Rightarrow> r
      | None \<Rightarrow> if str_isdigit range_str then [range_str] else [])"

definition validate_ip_suffix :: "hub \<Rightarrow> string \<Rightarrow> bool" where
  "validate_ip_suffix h ip_suffix \<longleftrightarrow>
     str_isdigit ip_suffix \<and> ip_suffix \<in> set (allowed_ips h)"

text \<open>The locals of \<open>_parse_ips\<close>, with the warnings handed to the logger.\<close>

record parse_state =
  valid_ips :: "string list"
  errors :: "string list"
  seen :: "string set"
  warnings :: "string list"

definition suffix_error :: "string \<Rightarrow> string" where
  "suffix_error ip_suffix = ''Invalid or disallowed IP suffix '' @ [quote] @ ip_suffix @ [quote]"

definition duplicate_warning :: "string \<Rightarrow> string" where
  "duplicate_warning ip_suffix = ''Skipping duplicate IP suffix '' @ [quote] @ ip_suffix @ [quote]"

definition host_of :: "hub \<Rightarrow> string \<Rightarrow> string" where
  "host_of h ip_suffix = ip_prefix h @ ''.'' @ ip_suffix"

fun parse_ips_loop :: "hub \<Rightarrow> string list \<Rightarrow> parse_state \<Rightarrow> parse_state" where
  "parse_ips_loop h [] st = st"
| "parse_ips_loop h (ip_suffix # rest) st =
     (if \<not> validate_ip_suffix h ip_suffix
      then parse_ips_loop h rest (st\<lparr>errors := errors st @ [suffix_error ip_suffix]\<rparr>)
      else if ip_suffix \<in> seen st
      then parse_ips_loop h rest (st\<lparr>warnings := warnings st @ [duplicate_warning ip_suffix]\<rparr>)
      else parse_ips_loop h rest
             (st\<lparr>seen := insert ip_suffix (seen st),
                 valid_ips := valid_ips st @ [host_of h ip_suffix]\<rparr>))"

definition parse_ips :: "hub \<Rightarrow> string list \<Rightarrow> parse_state" where
  "parse_ips h ip_suffixes =
     parse_ips_loop h ip_suffixes
       \<lparr>valid_ips = [], errors = [], seen = {}, warnings = []\<rparr>"

subsection \<open>The prefix pattern\<close>

text \<open>The fragment of regular expressions the prefix pattern uses: \<open>\d\<close>, a literal
  character, concatenation and bounded repetition \<open>r{lo,hi}\<close>.  Matching is by
  continuation: \<open>re_here r s k\<close> holds when some prefix of \<open>s\<close> matches \<open>r\<close> and the
  rest satisfies \<open>k\<close>, which is what a backtracking matcher decides.\<close>

datatype regex = Digit | Lit char | Seq regex regex | Rep nat nat regex

fun rep_here ::
  "nat \<Rightarrow> (string \<Rightarrow> (string \<Rightarrow> bool) \<Rightarrow> bool) \<Rightarrow> nat \<Rightarrow> string \<Rightarrow> (string \<Rightarrow> bool) \<Rightarrow> bool" where
  "rep_here 0 m lo s k = (lo = 0 \<and> k s)"
| "rep_here (Suc hi) m lo s k =
     (m s (\<lambda>s'. rep_here hi m (lo - 1) s' k) \<or> (lo = 0 \<and> k s))"

primrec re_here :: "regex \<Rightarrow> string \<Rightarrow> (string \<Rightarrow> bool) \<Rightarrow> bool" where
  "re_here Digit s k = (case s of [] \<Rightarrow> False | c # cs \<Rightarrow> is_digit c \<and> k cs)"
| "re_here (Lit a) s k = (case s of [] \<Rightarrow> False | c # cs \<Rightarrow> c = a \<and> k cs)"
| "re_here (Seq r1 r2) s k = re_here r1 s (\<lambda>s'. re_here r2 s' k)"
| "re_here (Rep lo hi r) s k = rep_here hi (re_here r) lo s k"

text \<open>\<open>$\<close> without the MULTILINE flag: the end of the string, or just before a line
  feed that ends the string.\<close>

definition dollar :: "string \<Rightarrow> bool" where
  "dollar s \<longleftrightarrow> s = [] \<or> s = [newline]"

text \<open>\<open>re.match('^' r '$', s)\<close> finds a match.\<close>

definition re_match_anchored :: "regex \<Rightarrow> string \<Rightarrow> bool" where
  "re_match_anchored r s = re_here r s dollar"

text \<open>\<open>(\d{1,3}\.){2}\d{1,3}\<close>\<close>

definition prefix_pattern :: regex where
  "prefix_pattern =
     Seq (Rep 2 2 (Seq (Rep 1 3 Digit) (Lit (CHR ''.'')))) (Rep 1 3 Digit)"

text \<open>\<open>all(0 <= int(octet) <= 255 for octet in octets)\<close>: stops at the first octet
  out of range, raises where \<open>int()\<close> does.\<close>

fun octets_in_range :: "string list \<Rightarrow> py_exception + bool" where
  "octets_in_range [] = Inr True"
| "octets_in_range (octet # rest) =
     (case py_int octet of
        None \<Rightarrow> Inl ValueError
      | Some n \<Rightarrow> if 0 \<le> n \<and> n \<le> 255 then octets_in_range rest else Inr False)"

definition validate_ip_prefix :: "string \<Rightarrow> py_exception + bool" where
  "validate_ip_prefix raw =
     (let p = str_rstrip ''.'' raw in
      if \<not> re_match_anchored prefix_pattern p then Inr False
      else octets_in_range (str_split (CHR ''.'') p))"

subsection \<open>Remote Executor\<close>

text \<open>What one run of the remote-shell client can do, as \<open>subprocess.run\<close> observes
  it: exit with a status, standard output and standard error; run past the timeout;
  or fail to start.\<close>

datatype proc_outcome =
    Exited int string string
  | TimedOut
  | LaunchFailed

text \<open>\<open>subprocess.run(..., timeout=..., check=True)\<close>: the completed process, or the
  exception raised.\<close>

fun subprocess_run :: "proc_outcome \<Rightarrow> py_exception + (string \<times> string)" where
  "subprocess_run (Exited returncode out err) =
     (if returncode = 0 then Inr (out, err) else Inl (CalledProcessError returncode err))"
| "subprocess_run TimedOut = Inl TimeoutExpired"
| "subprocess_run LaunchFailed = Inl OSError"

text \<open>The remote-shell client seen from one task: the outcome of its \<open>n\<close>-th
  invocation, given the argument vector.\<close>

type_synonym remote_shell = "nat \<Rightarrow> string list \<Rightarrow> proc_outcome"

text \<open>What \<open>_execute_ssh_command\<close> does: the value returned or the exception raised,
  the argument vectors it ran in order, and the lines it sent to the logger.\<close>

record exec_trace =
  outcome :: "py_exception + (bool \<times> string)"
  invocations :: "string list list"
  logged :: "string list"

definition label_of :: "string \<Rightarrow> string" where
  "label_of ip = ''[Client '' @ client_num_of ip @ '' | '' @ ip @ '']''"

text \<open>The loop over the lines of the output: \<open>output_lines.append\<close> for every line
  that is not empty.\<close>

fun label_lines :: "string \<Rightarrow> string list \<Rightarrow> string list \<Rightarrow> string list" where
  "label_lines label [] output_lines = output_lines"
| "label_lines label (line # rest) output_lines =
     label_lines label rest
       (if line \<noteq> [] then output_lines @ [label @ '' '' @ line] else output_lines)"

definition format_output :: "string \<Rightarrow> string \<Rightarrow> string" where
  "format_output label out =
     str_join [newline] (label_lines label (str_split newline (str_strip out)) [])"

text \<open>The two argument vectors: \<open>test_cmd\<close> runs the remote no-op \<open>exit 0\<close>,
  \<open>actual_cmd\<close> the task's command.\<close>

definition test_cmd :: "hub \<Rightarrow> string \<Rightarrow> string \<Rightarrow> string list" where
  "test_cmd h user ip = [''ssh''] @ ssh_options h @ [user @ ''@'' @ ip, ''exit'', ''0'']"

definition actual_cmd :: "hub \<Rightarrow> string \<Rightarrow> string \<Rightarrow> string \<Rightarrow> string list" where
  "actual_cmd h user ip command = [''ssh''] @ ssh_options h @ [user @ ''@'' @ ip, command]"

definition command_phase ::
  "hub \<Rightarrow> remote_shell \<Rightarrow> string \<Rightarrow> string \<Rightarrow> string \<Rightarrow> exec_trace" where
  "command_phase h shell user ip command =
     (let label = label_of ip;
          running = label @ '' Running '' @ [quote] @ command @ [quote] @ '' on '' @
                    user @ ''@'' @ ip
      in \<lparr>outcome =
            (case subprocess_run (shell 1 (actual_cmd h user ip command)) of
               Inr (out, err) \<Rightarrow> Inr (True, format_output label out)
             | Inl TimeoutExpired \<Rightarrow> Inr (False, label @ '' Error: Command timed out'')
             | Inl (CalledProcessError returncode err) \<Rightarrow>
                 Inr (False,
                      label @ '' Error: Command failed with status '' @ str_int returncode @
                      [newline] @ label @ '' Output: '' @
                      (if err \<noteq> [] then str_strip err else ''Unknown error''))
             | Inl e \<Rightarrow> Inl e),
          invocations = [test_cmd h user ip, actual_cmd h user ip command],
          logged = [running]\<rparr>)"

definition execute_ssh_command ::
  "hub \<Rightarrow> remote_shell \<Rightarrow> bool \<Rightarrow> string \<Rightarrow> string \<Rightarrow> string \<Rightarrow> exec_trace" where
  "execute_ssh_command h shell shutdown user ip command =
     (let label = label_of ip in
      if shutdown
      then \<lparr>outcome = Inr (False, label @ '' Aborted due to shutdown''),
            invocations = [], logged = []\<rparr>
      else
        let failed = \<lparr>outcome = Inr (False, label @
                        '' Error: Could not establish SSH connection to '' @ user @ ''@'' @ ip),
                      invocations = [test_cmd h user ip], logged = []\<rparr>
        in (case subprocess_run (shell 0 (test_cmd h user ip)) of
              Inl TimeoutExpired \<Rightarrow> failed
            | Inl (CalledProcessError returncode err) \<Rightarrow> failed
            | Inl e \<Rightarrow> \<lparr>outcome = Inl e, invocations = [test_cmd h user ip], logged = []\<rparr>
            | Inr r \<Rightarrow> command_phase h shell user ip command))"

subsection \<open>Dispatcher\<close>







subsection \<open>Concrete configuration and scripted clients\<close>

text \<open>The hub of the unit tests: \<open>setUp\<close> overrides the prefix and the allow-list,
  the client options are those of \<open>__init__\<close>.\<close>

definition test_hub :: hub where
  "test_hub =
     \<lparr>ip_prefix = ''10.200.142'',
      allowed_ips = [''1'', ''2'', ''3'', ''4'', ''5'', ''20'', ''21'', ''150'', ''151''],
      ssh_options = [''-o'', ''BatchMode=yes'', ''-o'', ''ConnectTimeout=5'',
                     ''-o'', ''StrictHostKeyChecking=accept-new'', ''-o'', ''ControlMaster=no'']\<rparr>"

text \<open>A remote-shell client that answers the probe with one outcome and the command
  with another, as the mocked \<open>subprocess.run\<close> of the tests does.\<close>

definition scripted_shell :: "proc_outcome \<Rightarrow> proc_outcome \<Rightarrow> remote_shell" where
  "scripted_shell probe cmd n argv = (if n = 0 then probe else cmd)"



subsection \<open>The specification's wording, for comparison\<close>

text \<open>The success message as the specification words it: the captured output split
  into lines, blank lines dropped, each line prefixed with the label, joined with
  newlines.\<close>

definition claimed_success_message :: "string \<Rightarrow> string \<Rightarrow> string" where
  "claimed_success_message ip out =
     str_join [newline]
       (map (\<lambda>line. label_of ip @ '' '' @ line)
            (filter (\<lambda>line. line \<noteq> []) (str_split newline out)))"

text \<open>The detail of a failed command as the specification words it: the captured
  error output, or \<open>Unknown error\<close> when none was captured.\<close>

definition claimed_failure_detail :: "string \<Rightarrow> string" where
  "claimed_failure_detail err = (if err = [] then ''Unknown error'' else err)"

text \<open>Token expansion as the specification words it: \<open>digits-digits\<close> with start at
  most end gives the integers in between, an all-digits token is kept, any other token
  gives nothing.\<close>

definition claimed_expand_range :: "string \<Rightarrow> string list" where
  "claimed_expand_range token =
     (if str_isdigit token then [token]
      else (case str_split (CHR ''-'') token of
              [a, b] \<Rightarrow>
                if str_isdigit a \<and> str_isdigit b \<and> digits_val a \<le> digits_val b
                then map str_int [int (digits_val a)..int (digits_val b)]
                else []
            | _ \<Rightarrow> []))"

text \<open>Prefix validation as the specification words it: one optional trailing
  separator is stripped, then exactly three dot-separated groups of one to three
  digits, each at most 255.\<close>

definition octet_group :: "string \<Rightarrow> bool" where
  "octet_group g \<longleftrightarrow> str_isdigit g \<and> length g \<le> 3 \<and> digits_val g \<le> 255"

definition three_groups :: "string \<Rightarrow> bool" where
  "three_groups p \<longleftrightarrow>
     (case str_split (CHR ''.'') p of
        [a, b, c] \<Rightarrow> octet_group a \<and> octet_group b \<and> octet_group c
      | _ \<Rightarrow> False)"

definition strip_one_separator :: "string \<Rightarrow> string" where
  "strip_one_separator raw =
     (if raw \<noteq> [] \<and> last raw = CHR ''.'' then butlast raw else raw)"

definition claimed_validate_prefix :: "string \<Rightarrow> bool" where
  "claimed_validate_prefix raw = three_groups (strip_one_separator raw)"

section \<open>Properties\<close>

subsection \<open>Substitution and task construction\<close>

lemma replace_scan_absent:
  "\<not> sublist old s \<Longrightarrow> replace_scan old new s = s"
proof (induction s)
  case Nil
  then show ?case by simp
next
  case (Cons c cs)
  have np: "\<not> prefix old (c # cs)"
    using Cons.prems prefix_imp_sublist by blast
  have ns: "\<not> sublist old cs"
    using Cons.prems by (auto simp: sublist_Cons_right)
  show ?case using np ns Cons.IH by simp
qed

lemma prefix_across:
  assumes "h \<notin> set t" and "a \<noteq> []" and "prefix (h # t) (a @ (h # t) @ b)"
  shows "prefix (h # t) a"
proof (cases "length (h # t) \<le> length a")
  case True
  then show ?thesis using assms(3)
    by (metis append_eq_append_conv_if  prefix_def take_is_prefix)
next
  case False
  then have lt: "length a < length (h # t)" by simp
  from assms(3) obtain zs where zs: "a @ (h # t) @ b = (h # t) @ zs"
    by (auto simp: prefix_def)
  have "((h # t) @ zs) ! length a = (h # t) ! length a"
    using lt by (simp only: nth_append if_True)
  moreover have "(a @ (h # t) @ b) ! length a = h"
    by (simp only: nth_append_length append_Cons)
  ultimately have "(h # t) ! length a = h" using zs by metis
  moreover from assms(2) lt have "(h # t) ! length a \<in> set t"
    by (cases a) auto
  ultimately show ?thesis using assms(1) by simp
qed

lemma replace_scan_occurrence:
  assumes "h \<notin> set t"
  shows "replace_scan (h # t) new (a @ (h # t) @ b) =
         replace_scan (h # t) new a @ new @ replace_scan (h # t) new b"
proof (induction a rule: length_induct)
  case (1 a)
  show ?case
  proof (cases a)
    case Nil
    then show ?thesis by simp
  next
    case (Cons c cs)
    show ?thesis
    proof (cases "prefix (h # t) a")
      case True
      then obtain r where r: "a = (h # t) @ r" by (auto simp: prefix_def)
      then have "length r < length a" by simp
      with 1 have "replace_scan (h # t) new (r @ (h # t) @ b) =
         replace_scan (h # t) new r @ new @ replace_scan (h # t) new b" by blast
      then show ?thesis using r by simp
    next
      case False
      then have "\<not> prefix (h # t) (a @ (h # t) @ b)"
        using prefix_across[OF assms, of a b] Cons by blast
      then have "replace_scan (h # t) new ((c # cs) @ (h # t) @ b) =
           c # replace_scan (h # t) new (cs @ (h # t) @ b)"
        unfolding Cons by (simp del: Cons_prefix_Cons)
      moreover have "replace_scan (h # t) new (c # cs) = c # replace_scan (h # t) new cs"
        using False unfolding Cons by (simp del: Cons_prefix_Cons)
      moreover have "length cs < length a" using Cons by simp
      with 1 have "replace_scan (h # t) new (cs @ (h # t) @ b) =
         replace_scan (h # t) new cs @ new @ replace_scan (h # t) new b" by blast
      ultimately show ?thesis unfolding Cons by simp
    qed
  qed
qed

lemma add_tasks_eq:
  "add_tasks u c ips acc =
     acc @ map (\<lambda>ip. (substitute_variables u (client_num_of ip), ip,
                      substitute_variables c (client_num_of ip))) ips"
  by (induction ips arbitrary: acc) auto

subsection \<open>Remote Executor and Dispatcher\<close>

lemma label_lines_eq:
  "label_lines label ls acc =
     acc @ map (\<lambda>l. label @ '' '' @ l) (filter (\<lambda>l. l \<noteq> []) ls)"
  by (induction ls arbitrary: acc) auto

lemma format_output_eq:
  "format_output label out =
     str_join [newline] (map (\<lambda>l. label @ '' '' @ l)
        (filter (\<lambda>l. l \<noteq> []) (str_split newline (str_strip out))))"
  by (simp add: format_output_def label_lines_eq)

lemma probe_ok:
  "\<not> shutdown \<Longrightarrow> shell 0 (test_cmd h user ip) = Exited 0 o1 e1 \<Longrightarrow>
   execute_ssh_command h shell shutdown user ip command = command_phase h shell user ip command"
  by (simp add: execute_ssh_command_def Let_def)


subsection \<open>Host Validator\<close>

lemma positions_Cons:
  "map ((!) (x # xs)) (filter P [0..<Suc (length xs)]) =
     (if P 0 then [x] else []) @ map ((!) xs) (filter (\<lambda>i. P (Suc i)) [0..<length xs])"
proof -
  have "[0..<Suc (length xs)] = 0 # map Suc [0..<length xs]"
    by (simp only: upt_conv_Cons[of 0 "Suc (length xs)"] map_Suc_upt zero_less_Suc)
  then show ?thesis by (simp add: filter_map comp_def)
qed

lemma parse_ips_loop_fields:
  "valid_ips (parse_ips_loop h xs st) =
     valid_ips st @ map (host_of h) (map ((!) xs)
       (filter (\<lambda>i. validate_ip_suffix h (xs ! i) \<and> xs ! i \<notin> seen st \<and> xs ! i \<notin> set (take i xs))
          [0..<length xs])) \<and>
   errors (parse_ips_loop h xs st) =
     errors st @ map suffix_error (filter (\<lambda>s. \<not> validate_ip_suffix h s) xs) \<and>
   warnings (parse_ips_loop h xs st) =
     warnings st @ map duplicate_warning (map ((!) xs)
       (filter (\<lambda>i. validate_ip_suffix h (xs ! i) \<and> (xs ! i \<in> seen st \<or> xs ! i \<in> set (take i xs)))
          [0..<length xs]))"
proof (induction xs arbitrary: st)
  case Nil
  then show ?case by simp
next
  case (Cons x xs)
  show ?case
  proof (cases "validate_ip_suffix h x")
    case False
    have a: "(\<lambda>i. validate_ip_suffix h (xs ! i) \<and> xs ! i \<notin> seen st \<and> xs ! i \<noteq> x \<and> xs ! i \<notin> set (take i xs))
           = (\<lambda>i. validate_ip_suffix h (xs ! i) \<and> xs ! i \<notin> seen st \<and> xs ! i \<notin> set (take i xs))"
      using False by auto
    have b: "(\<lambda>i. validate_ip_suffix h (xs ! i) \<and> (xs ! i \<in> seen st \<or> xs ! i = x \<or> xs ! i \<in> set (take i xs)))
           = (\<lambda>i. validate_ip_suffix h (xs ! i) \<and> (xs ! i \<in> seen st \<or> xs ! i \<in> set (take i xs)))"
      using False by auto
    show ?thesis
      using False Cons.IH[of "st\<lparr>errors := errors st @ [suffix_error x]\<rparr>"]
      by (simp add: positions_Cons a b del: upt_Suc)
  next
    case True
    show ?thesis
    proof (cases "x \<in> seen st")
      case True
      have a: "(\<lambda>i. validate_ip_suffix h (xs ! i) \<and> xs ! i \<notin> seen st \<and> xs ! i \<noteq> x \<and> xs ! i \<notin> set (take i xs))
           = (\<lambda>i. validate_ip_suffix h (xs ! i) \<and> xs ! i \<notin> seen st \<and> xs ! i \<notin> set (take i xs))"
        using True by auto
      have b: "(\<lambda>i. validate_ip_suffix h (xs ! i) \<and> (xs ! i \<in> seen st \<or> xs ! i = x \<or> xs ! i \<in> set (take i xs)))
           = (\<lambda>i. validate_ip_suffix h (xs ! i) \<and> (xs ! i \<in> seen st \<or> xs ! i \<in> set (take i xs)))"
        using True by auto
      show ?thesis
        using True \<open>validate_ip_suffix h x\<close>
          Cons.IH[of "st\<lparr>warnings := warnings st @ [duplicate_warning x]\<rparr>"]
        by (simp add: positions_Cons a b del: upt_Suc)
    next
      case False
      have a: "(\<lambda>i. validate_ip_suffix h (xs ! i) \<and> xs ! i \<noteq> x \<and> xs ! i \<notin> seen st \<and> xs ! i \<notin> set (take i xs))
           = (\<lambda>i. validate_ip_suffix h (xs ! i) \<and> xs ! i \<notin> seen st \<and> xs ! i \<noteq> x \<and> xs ! i \<notin> set (take i xs))"
        by auto
      have b: "(\<lambda>i. validate_ip_suffix h (xs ! i) \<and> ((xs ! i = x \<or> xs ! i \<in> seen st) \<or> xs ! i \<in> set (take i xs)))
           = (\<lambda>i. validate_ip_suffix h (xs ! i) \<and> (xs ! i \<in> seen st \<or> xs ! i = x \<or> xs ! i \<in> set (take i xs)))"
        by auto
      show ?thesis
        using False \<open>validate_ip_suffix h x\<close>
          Cons.IH[of "st\<lparr>seen := insert x (seen st), valid_ips := valid_ips st @ [host_of h x]\<rparr>"]
        by (simp add: positions_Cons a disj_left_commute del: upt_Suc)
    qed
  qed
qed

lemma host_of_inj: "host_of h a = host_of h b \<longleftrightarrow> a = b"
  by (simp add: host_of_def)

lemma first_positions_set:
  "set (map ((!) xs) (filter (\<lambda>i. P (xs ! i) \<and> xs ! i \<notin> set (take i xs)) [0..<length xs])) =
   {x \<in> set xs. P x}"
proof (induction xs rule: rev_induct)
  case Nil
  then show ?case by simp
next
  case (snoc x xs)
  have "map ((!) (xs @ [x])) (filter (\<lambda>i. P ((xs @ [x]) ! i) \<and> (xs @ [x]) ! i \<notin> set (take i (xs @ [x]))) [0..<length xs])
      = map ((!) xs) (filter (\<lambda>i. P (xs ! i) \<and> xs ! i \<notin> set (take i xs)) [0..<length xs])"
    by (intro map_cong filter_cong refl) (auto simp: nth_append)
  then show ?case using snoc by (auto simp: nth_append)
qed

lemma parse_ips_valid:
  "valid_ips (parse_ips h sfx) =
     map (host_of h) (map ((!) sfx)
       (filter (\<lambda>i. validate_ip_suffix h (sfx ! i) \<and> sfx ! i \<notin> set (take i sfx)) [0..<length sfx]))"
  using parse_ips_loop_fields[of h sfx "\<lparr>valid_ips = [], errors = [], seen = {}, warnings = []\<rparr>"]
  by (simp add: parse_ips_def)

lemma parse_ips_members:
  "set (valid_ips (parse_ips h sfx)) = host_of h ` {s \<in> set sfx. validate_ip_suffix h s}"
proof -
  have "set (valid_ips (parse_ips h sfx)) = host_of h ` set (map ((!) sfx)
       (filter (\<lambda>i. validate_ip_suffix h (sfx ! i) \<and> sfx ! i \<notin> set (take i sfx)) [0..<length sfx]))"
    unfolding parse_ips_valid by (simp only: set_map)
  then show ?thesis
    by (simp only: first_positions_set[of sfx "validate_ip_suffix h"])
qed

lemma digits_exclude: "list_all is_digit d \<Longrightarrow> \<not> is_digit c \<Longrightarrow> c \<notin> set d"
  by (auto simp: list_all_iff)

lemma not_digit_chars:
  "\<not> is_digit (CHR ''-'')" "\<not> is_digit (CHR ''+'')" "\<not> is_digit (CHR ''_'')"
  "\<not> is_digit (CHR ''.'')" "\<not> is_digit newline"
  by (simp_all add: is_digit_def newline_def)

lemma digit_not_int_space: "is_digit c \<Longrightarrow> \<not> int_space c"
  by (auto simp: is_digit_def int_space_def)

lemma strip_digits:
  assumes "str_isdigit d"
  shows "rev (dropWhile int_space (rev (dropWhile int_space d))) = d"
proof -
  from assms have ne: "d \<noteq> []" and all: "list_all is_digit d"
    by (simp_all add: str_isdigit_def)
  have "is_digit (hd d)" using ne all by (cases d) auto
  then have 1: "dropWhile int_space d = d"
    using ne by (simp add: dropWhile_eq_self_iff digit_not_int_space)
  have "is_digit (last d)" using ne all by (auto simp: list_all_iff)
  then have "dropWhile int_space (rev d) = rev d"
    using ne by (simp add: dropWhile_eq_self_iff hd_rev digit_not_int_space)
  with 1 show ?thesis by simp
qed

lemma int_body_ok_digits: "d \<noteq> [] \<Longrightarrow> list_all is_digit d \<Longrightarrow> int_body_ok d"
  by (induction d rule: int_body_ok.induct) (auto simp: not_digit_chars)

lemma int_body_val_digits: "list_all is_digit d \<Longrightarrow> int_body_val d = int (digits_val d)"
proof -
  assume a: "list_all is_digit d"
  have "filter (\<lambda>c. c \<noteq> CHR ''_'') d = d"
    using digits_exclude[OF a not_digit_chars(3)] by (auto simp: filter_id_conv)
  then show ?thesis by (simp add: int_body_val_def)
qed

lemma py_int_digits:
  assumes "str_isdigit d" and "length d \<le> 4300"
  shows "py_int d = Some (int (digits_val d))"
proof -
  from assms obtain c cs where d: "d = c # cs" and all: "list_all is_digit d"
    by (cases d) (auto simp: str_isdigit_def)
  have c: "c \<noteq> CHR ''-''" "c \<noteq> CHR ''+''"
    using all d not_digit_chars by auto
  have "filter (\<lambda>c. c \<noteq> CHR ''_'') d = d"
    using digits_exclude[OF all not_digit_chars(3)] by (auto simp: filter_id_conv)
  then have "int_literal d = Some (int (digits_val d))"
    using int_body_ok_digits[of d] int_body_val_digits[OF all] d all assms(2)
    by (simp add: int_literal_def int_max_str_digits_def)
  then show ?thesis
    unfolding py_int_def strip_digits[OF assms(1)] using c d by simp
qed

lemma py_int_long:
  assumes "str_isdigit d" and "4300 < length d"
  shows "py_int d = None"
proof -
  from assms obtain c cs where d: "d = c # cs" and all: "list_all is_digit d"
    by (cases d) (auto simp: str_isdigit_def)
  have c: "c \<noteq> CHR ''-''" "c \<noteq> CHR ''+''"
    using all d not_digit_chars by auto
  have "filter (\<lambda>c. c \<noteq> CHR ''_'') d = d"
    using digits_exclude[OF all not_digit_chars(3)] by (auto simp: filter_id_conv)
  then have "int_literal d = None"
    using assms(2) by (simp add: int_literal_def int_max_str_digits_def)
  then show ?thesis
    unfolding py_int_def strip_digits[OF assms(1)] using c d by simp
qed

lemma str_split1_first:
  "sep \<notin> set x \<Longrightarrow> str_split1 sep (x @ sep # y) = [x, y]"
proof -
  assume a: "sep \<notin> set x"
  then have "\<And>c. c \<in> set x \<Longrightarrow> c \<noteq> sep" by auto
  then have "takeWhile (\<lambda>c. c \<noteq> sep) (x @ sep # y) = x"
    and "dropWhile (\<lambda>c. c \<noteq> sep) (x @ sep # y) = sep # y"
    by simp_all
  then show ?thesis by (simp add: str_split1_def)
qed

lemma str_split1_cut:
  assumes "sep \<in> set s"
  obtains x y where "s = x @ sep # y" "sep \<notin> set x" "str_split1 sep s = [x, y]"
proof -
  let ?x = "takeWhile (\<lambda>c. c \<noteq> sep) s" and ?r = "dropWhile (\<lambda>c. c \<noteq> sep) s"
  have "?r \<noteq> []" using assms by (auto simp: dropWhile_eq_Nil_conv)
  moreover have "hd ?r = sep" using \<open>?r \<noteq> []\<close> hd_dropWhile[of "\<lambda>c. c \<noteq> sep" s] by auto
  ultimately have r: "?r = sep # tl ?r" by (cases ?r) auto
  have "s = ?x @ ?r" by simp
  then have "s = ?x @ sep # tl ?r" using r by simp
  moreover have "sep \<notin> set ?x" by (auto dest: set_takeWhileD)
  moreover have "str_split1 sep s = [?x, tl ?r]" using assms by (simp add: str_split1_def)
  ultimately show ?thesis using that by blast
qed

lemma hyphen_not_isdigit: "CHR ''-'' \<in> set s \<Longrightarrow> \<not> str_isdigit s"
  using digits_exclude[OF _ not_digit_chars(1)] by (auto simp: str_isdigit_def)

lemma expand_range_hyphen:
  assumes "CHR ''-'' \<notin> set x"
  shows "expand_range (x @ ''-'' @ y) =
     (case py_int x of
        None \<Rightarrow> []
      | Some lo \<Rightarrow>
          (case py_int y of
             None \<Rightarrow> []
           | Some hi \<Rightarrow> if lo \<le> hi then map str_int [lo..hi] else []))"
proof -
  have "\<not> str_isdigit (x @ ''-'' @ y)" by (rule hyphen_not_isdigit) simp
  then show ?thesis
    using assms
    by (simp add: expand_range_def range_block_def str_split1_first
        split: option.splits)
qed

text \<open>
  C10.  \<open>_substitute_variables\<close> replaces every occurrence of the literal placeholder:
  whatever text stands before and after an occurrence, the occurrence becomes the
  suffix and the two sides are substituted in turn, so neither the first occurrence
  nor a longer name that begins with the placeholder is special; a text with no
  occurrence of the placeholder is returned unchanged.
\<close>

theorem substitute_every_occurrence:
  "substitute_variables (before @ placeholder @ after) client_num =
     substitute_variables before client_num @ client_num @
     substitute_variables after client_num \<and>
   substitute_variables (before @ ''$CLIENT_NUMBER'' @ after) client_num =
     substitute_variables before client_num @ client_num @ ''BER'' @
     substitute_variables after client_num \<and>
   (\<not> sublist placeholder template \<longrightarrow>
      substitute_variables template client_num = template)"
proof -
  have occ: "\<And>a b. replace_scan ''$CLIENT_NUM'' client_num (a @ ''$CLIENT_NUM'' @ b) =
      replace_scan ''$CLIENT_NUM'' client_num a @ client_num @
      replace_scan ''$CLIENT_NUM'' client_num b"
    by (rule replace_scan_occurrence) simp
  have ber: "replace_scan ''$CLIENT_NUM'' client_num (''BER'' @ after) =
      ''BER'' @ replace_scan ''$CLIENT_NUM'' client_num after"
    by simp
  have "before @ ''$CLIENT_NUMBER'' @ after = before @ ''$CLIENT_NUM'' @ (''BER'' @ after)"
    by simp
  then have "replace_scan ''$CLIENT_NUM'' client_num (before @ ''$CLIENT_NUMBER'' @ after) =
      replace_scan ''$CLIENT_NUM'' client_num before @ client_num @ ''BER'' @
      replace_scan ''$CLIENT_NUM'' client_num after"
    by (simp only: occ ber)
  then show ?thesis
    using occ[of before after] replace_scan_absent[of "''$CLIENT_NUM''" template client_num]
    by (simp add: substitute_variables_def str_replace_def placeholder_def)
qed

theorem substitute_every_occurrence_witness:
  "\<not> sublist placeholder ''echo test'' \<and>
   substitute_variables ''echo test'' ''5'' = ''echo test'' \<and>
   substitute_variables (''echo '' @ placeholder @ '' $CLIENT_NUMBER'') ''5'' = ''echo 5 5BER''"
proof -
  have absent: "\<not> sublist placeholder ''echo test''"
    by (simp add: placeholder_def sublist_code)
  have "substitute_variables (''echo '' @ placeholder @ '' $CLIENT_NUMBER'') ''5'' =
      substitute_variables ''echo '' ''5'' @ ''5'' @ substitute_variables '' $CLIENT_NUMBER'' ''5''"
    using substitute_every_occurrence[of "''echo ''" "'' $CLIENT_NUMBER''" "''5''"] by simp
  moreover have "substitute_variables ''echo '' ''5'' = ''echo ''"
    by (simp add: substitute_variables_def str_replace_def placeholder_def)
  moreover have "substitute_variables '' $CLIENT_NUMBER'' ''5'' = '' 5BER''"
    by (simp add: substitute_variables_def str_replace_def placeholder_def)
  ultimately show ?thesis
    using absent substitute_every_occurrence[of _ _ "''5''" "''echo test''"] by simp
qed

text \<open>
  C4.  The task list of \<open>execute_commands\<close> holds one task for every primary host, in
  input order, followed by one task for every secondary host, in input order.  The user
  of a task is the group's user template, and its command the shared command template,
  with the placeholder replaced by the last dot-separated segment of the host address.
  An empty host list adds no task.
\<close>

theorem build_tasks_order:
  "build_tasks primary_ips secondary_ips primary_user secondary_user command =
     map (\<lambda>ip. (str_replace placeholder (last (str_split (CHR ''.'') ip)) primary_user, ip,
                str_replace placeholder (last (str_split (CHR ''.'') ip)) command))
         primary_ips @
     map (\<lambda>ip. (str_replace placeholder (last (str_split (CHR ''.'') ip)) secondary_user, ip,
                str_replace placeholder (last (str_split (CHR ''.'') ip)) command))
         secondary_ips"
  by (simp add: build_tasks_def add_tasks_eq substitute_variables_def client_num_of_def)

theorem build_tasks_order_witness:
  "build_tasks [''10.200.142.1'', ''10.200.142.2''] [] ''user$CLIENT_NUM'' ''admin''
     ''echo $CLIENT_NUM'' =
   [(''user1'', ''10.200.142.1'', ''echo 1''), (''user2'', ''10.200.142.2'', ''echo 2'')]"
  unfolding build_tasks_order[of "[''10.200.142.1'', ''10.200.142.2'']" "[]"
      "''user$CLIENT_NUM''" "''admin''" "''echo $CLIENT_NUM''"]
  by (simp add: str_replace_def placeholder_def)

text \<open>
  C1 (as amended).  With the shutdown flag clear, if the probe invocation exits with a
  non-zero status or times out, \<open>_execute_ssh_command\<close> returns \<open>success = False\<close>
  with the message that an SSH connection to \<open>user@host\<close> could not be established,
  and the probe is the only invocation of the remote-shell client.  If the client
  fails to launch, the probe is again the only invocation, but nothing is returned: the
  operating-system error leaves \<open>_execute_ssh_command\<close> as an exception.
\<close>

theorem probe_failure_result:
  "(shell 0 (test_cmd h user ip) = TimedOut \<or>
    (\<exists>rc out err. rc \<noteq> 0 \<and> shell 0 (test_cmd h user ip) = Exited rc out err) \<longrightarrow>
      execute_ssh_command h shell False user ip command =
        \<lparr>outcome = Inr (False, label_of ip @
             '' Error: Could not establish SSH connection to '' @ user @ ''@'' @ ip),
         invocations = [test_cmd h user ip],
         logged = []\<rparr>) \<and>
   (shell 0 (test_cmd h user ip) = LaunchFailed \<longrightarrow>
      execute_ssh_command h shell False user ip command =
        \<lparr>outcome = Inl OSError,
         invocations = [test_cmd h user ip],
         logged = []\<rparr>)"
  by (auto simp add: execute_ssh_command_def Let_def)

theorem probe_failure_result_witness:
  "scripted_shell (Exited 255 [] []) TimedOut 0 (test_cmd test_hub ''testuser'' ''10.200.142.1'') =
     Exited 255 [] [] \<and>
   outcome (execute_ssh_command test_hub (scripted_shell (Exited 255 [] []) TimedOut) False
      ''testuser'' ''10.200.142.1'' ''echo test'') =
     Inr (False, ''[Client 1 | 10.200.142.1] Error: Could not establish SSH connection to testuser@10.200.142.1'') \<and>
   length (invocations (execute_ssh_command test_hub (scripted_shell (Exited 255 [] []) TimedOut)
      False ''testuser'' ''10.200.142.1'' ''echo test'')) = 1 \<and>
   scripted_shell LaunchFailed TimedOut 0 (test_cmd test_hub ''testuser'' ''10.200.142.1'') =
     LaunchFailed \<and>
   outcome (execute_ssh_command test_hub (scripted_shell LaunchFailed TimedOut) False
      ''testuser'' ''10.200.142.1'' ''echo test'') = Inl OSError"
proof -
  have p1: "scripted_shell (Exited 255 [] []) TimedOut 0
      (test_cmd test_hub ''testuser'' ''10.200.142.1'') = Exited 255 [] []"
    by (simp add: scripted_shell_def)
  have p2: "scripted_shell LaunchFailed TimedOut 0
      (test_cmd test_hub ''testuser'' ''10.200.142.1'') = LaunchFailed"
    by (simp add: scripted_shell_def)
  have lab: "label_of ''10.200.142.1'' = ''[Client 1 | 10.200.142.1]''"
    by (simp add: label_of_def client_num_of_def)
  show ?thesis
    using p1 p2
      probe_failure_result[of "scripted_shell (Exited 255 [] []) TimedOut" test_hub
        "''testuser''" "''10.200.142.1''" "''echo test''"]
      probe_failure_result[of "scripted_shell LaunchFailed TimedOut" test_hub
        "''testuser''" "''10.200.142.1''" "''echo test''"]
    by (simp add: lab)
qed

theorem probe_launch_failure_counterexample:
  "outcome (execute_ssh_command test_hub (scripted_shell LaunchFailed TimedOut) False
      ''testuser'' ''10.200.142.1'' ''echo test'') = Inl OSError \<and>
   outcome (execute_ssh_command test_hub (scripted_shell LaunchFailed TimedOut) False
      ''testuser'' ''10.200.142.1'' ''echo test'') \<noteq>
     Inr (False, ''[Client 1 | 10.200.142.1] Error: Could not establish SSH connection to testuser@10.200.142.1'')"
  by (simp add: execute_ssh_command_def scripted_shell_def Let_def)

text \<open>
  C2 (as amended).  With the shutdown flag clear and a successful probe, if the command
  invocation exits with status zero, \<open>_execute_ssh_command\<close> returns \<open>success = True\<close>
  and a message built from the captured standard output as follows: leading and trailing
  whitespace of the whole output is removed, the rest is split at line feeds, empty lines
  are dropped, every remaining line is prefixed with the label
  \<open>[Client <suffix> | <address>]\<close> and a space, where the suffix is the last dot-separated
  segment of the host address, and the lines are joined with line feeds.
\<close>

theorem success_message:
  "shell 0 (test_cmd h user ip) = Exited 0 probe_out probe_err \<and>
   shell 1 (actual_cmd h user ip command) = Exited 0 out err \<longrightarrow>
   outcome (execute_ssh_command h shell False user ip command) =
     Inr (True,
       str_join [newline]
         (map (\<lambda>line. (''[Client '' @ last (str_split (CHR ''.'') ip) @ '' | '' @ ip @ '']'') @
                       '' '' @ line)
            (filter (\<lambda>line. line \<noteq> []) (str_split newline (str_strip out)))))"
  by (simp add: probe_ok command_phase_def Let_def format_output_eq label_of_def
      client_num_of_def)

theorem success_message_witness:
  "scripted_shell (Exited 0 [] []) (Exited 0 (''Hello World'' @ [newline] @ ''Line 2'') [])
     0 (test_cmd test_hub ''testuser'' ''10.200.142.1'') = Exited 0 [] [] \<and>
   scripted_shell (Exited 0 [] []) (Exited 0 (''Hello World'' @ [newline] @ ''Line 2'') [])
     1 (actual_cmd test_hub ''testuser'' ''10.200.142.1'' ''echo test'') =
     Exited 0 (''Hello World'' @ [newline] @ ''Line 2'') [] \<and>
   outcome (execute_ssh_command test_hub
      (scripted_shell (Exited 0 [] []) (Exited 0 (''Hello World'' @ [newline] @ ''Line 2'') []))
      False ''testuser'' ''10.200.142.1'' ''echo test'') =
     Inr (True, ''[Client 1 | 10.200.142.1] Hello World'' @ [newline] @
                ''[Client 1 | 10.200.142.1] Line 2'')"
proof -
  let ?sh = "scripted_shell (Exited 0 [] []) (Exited 0 (''Hello World'' @ [newline] @ ''Line 2'') [])"
  have p: "?sh 0 (test_cmd test_hub ''testuser'' ''10.200.142.1'') = Exited 0 [] []"
    by (simp add: scripted_shell_def)
  have c: "?sh 1 (actual_cmd test_hub ''testuser'' ''10.200.142.1'' ''echo test'') =
      Exited 0 (''Hello World'' @ [newline] @ ''Line 2'') []"
    by (simp add: scripted_shell_def)
  show ?thesis
    using p c success_message[of ?sh test_hub "''testuser''" "''10.200.142.1''" "[]" "[]"
        "''echo test''" "''Hello World'' @ [newline] @ ''Line 2''" "[]"]
    by (simp add: str_strip_def is_space_def newline_def)
qed

theorem success_message_counterexample:
  "outcome (execute_ssh_command test_hub
      (scripted_shell (Exited 0 [] [])
         (Exited 0 (''  PID TTY'' @ [newline] @ '' 4242 pts/0'' @ [newline]) []))
      False ''testuser'' ''10.200.142.1'' ''ps'') =
     Inr (True, ''[Client 1 | 10.200.142.1] PID TTY'' @ [newline] @
                ''[Client 1 | 10.200.142.1]  4242 pts/0'') \<and>
   claimed_success_message ''10.200.142.1''
       (''  PID TTY'' @ [newline] @ '' 4242 pts/0'' @ [newline]) =
     ''[Client 1 | 10.200.142.1]   PID TTY'' @ [newline] @
     ''[Client 1 | 10.200.142.1]  4242 pts/0''"
  by (simp add: execute_ssh_command_def command_phase_def scripted_shell_def Let_def
      format_output_def claimed_success_message_def label_of_def client_num_of_def
      str_strip_def is_space_def newline_def)

text \<open>
  C3 (as amended).  With the shutdown flag clear and a successful probe: if the command
  invocation times out, \<open>_execute_ssh_command\<close> returns \<open>success = False\<close> with the
  message that the command timed out; if it exits with a non-zero status, the result is
  \<open>success = False\<close> with a message made of the exit status in decimal and, on a second
  labelled line, the captured error output with leading and trailing whitespace removed,
  or the text \<open>Unknown error\<close> when the captured error output is empty.
\<close>

theorem command_failure_result:
  "shell 0 (test_cmd h user ip) = Exited 0 probe_out probe_err \<longrightarrow>
   (shell 1 (actual_cmd h user ip command) = TimedOut \<longrightarrow>
      outcome (execute_ssh_command h shell False user ip command) =
        Inr (False, label_of ip @ '' Error: Command timed out'')) \<and>
   (shell 1 (actual_cmd h user ip command) = Exited rc out err \<and> rc \<noteq> 0 \<longrightarrow>
      outcome (execute_ssh_command h shell False user ip command) =
        Inr (False, label_of ip @ '' Error: Command failed with status '' @ str_int rc @
             [newline] @ label_of ip @ '' Output: '' @
             (if err = [] then ''Unknown error'' else str_strip err)))"
  by (simp add: probe_ok command_phase_def Let_def)

theorem command_failure_result_witness:
  "scripted_shell (Exited 0 [] []) (Exited 127 [] ''command not found'')
     0 (test_cmd test_hub ''testuser'' ''10.200.142.1'') = Exited 0 [] [] \<and>
   scripted_shell (Exited 0 [] []) (Exited 127 [] ''command not found'')
     1 (actual_cmd test_hub ''testuser'' ''10.200.142.1'' ''badcommand'') =
     Exited 127 [] ''command not found'' \<and>
   outcome (execute_ssh_command test_hub
      (scripted_shell (Exited 0 [] []) (Exited 127 [] ''command not found''))
      False ''testuser'' ''10.200.142.1'' ''badcommand'') =
     Inr (False, ''[Client 1 | 10.200.142.1] Error: Command failed with status 127'' @
                 [newline] @ ''[Client 1 | 10.200.142.1] Output: command not found'') \<and>
   scripted_shell (Exited 0 [] []) TimedOut
     1 (actual_cmd test_hub ''testuser'' ''10.200.142.1'' ''sleep 60'') = TimedOut \<and>
   outcome (execute_ssh_command test_hub (scripted_shell (Exited 0 [] []) TimedOut)
      False ''testuser'' ''10.200.142.1'' ''sleep 60'') =
     Inr (False, ''[Client 1 | 10.200.142.1] Error: Command timed out'')"
proof -
  let ?sh = "scripted_shell (Exited 0 [] []) (Exited 127 [] ''command not found'')"
  let ?st = "scripted_shell (Exited 0 [] []) TimedOut"
  have p: "?sh 0 (test_cmd test_hub ''testuser'' ''10.200.142.1'') = Exited 0 [] []"
    "?st 0 (test_cmd test_hub ''testuser'' ''10.200.142.1'') = Exited 0 [] []"
    by (simp_all add: scripted_shell_def)
  have c: "?sh 1 (actual_cmd test_hub ''testuser'' ''10.200.142.1'' ''badcommand'') =
      Exited 127 [] ''command not found''"
    "?st 1 (actual_cmd test_hub ''testuser'' ''10.200.142.1'' ''sleep 60'') = TimedOut"
    by (simp_all add: scripted_shell_def)
  have lab: "label_of ''10.200.142.1'' = ''[Client 1 | 10.200.142.1]''"
    by (simp add: label_of_def client_num_of_def)
  have st: "str_strip ''command not found'' = ''command not found''"
    by (simp add: str_strip_def is_space_def)
  have n: "str_int 127 = ''127''"
    by code_simp
  show ?thesis
    using p c
      command_failure_result[of ?sh test_hub "''testuser''" "''10.200.142.1''" "[]" "[]"
        "''badcommand''" 127 "[]" "''command not found''"]
      command_failure_result[of ?st test_hub "''testuser''" "''10.200.142.1''" "[]" "[]"
        "''sleep 60''" 1 "[]" "[]"]
    by (simp add: lab st n)
qed

theorem command_failure_counterexample:
  "outcome (execute_ssh_command test_hub
      (scripted_shell (Exited 0 [] []) (Exited 1 [] ('' '' @ [newline])))
      False ''testuser'' ''10.200.142.1'' ''badcommand'') =
     Inr (False, ''[Client 1 | 10.200.142.1] Error: Command failed with status 1'' @
                 [newline] @ ''[Client 1 | 10.200.142.1] Output: '') \<and>
   \<not> sublist (claimed_failure_detail ('' '' @ [newline]))
       (''[Client 1 | 10.200.142.1] Error: Command failed with status 1'' @
        [newline] @ ''[Client 1 | 10.200.142.1] Output: '') \<and>
   \<not> sublist ''Unknown error''
       (''[Client 1 | 10.200.142.1] Error: Command failed with status 1'' @
        [newline] @ ''[Client 1 | 10.200.142.1] Output: '')"
  by code_simp



text \<open>
  C6 (as amended).  \<open>_parse_ips\<close> never raises and returns two lists.  The hosts are
  \<open>prefix.suffix\<close> for the suffixes that are all digits and on the allow-list, each
  once, in the input order of their first occurrences; a suffix is among the hosts if
  and only if it occurs in the input, is all digits and is on the allow-list.  Every
  occurrence of a suffix that fails this validation, a repeated one included, adds
  exactly one error string \<open>Invalid or disallowed IP suffix '<suffix>'\<close>, in input
  order, and no warning.  Every later occurrence of a suffix that passes the validation
  is skipped with the warning \<open>Skipping duplicate IP suffix '<suffix>'\<close> and no error.
\<close>

theorem parse_ips_result:
  "valid_ips (parse_ips h ip_suffixes) =
     map (\<lambda>i. ip_prefix h @ ''.'' @ ip_suffixes ! i)
       (filter (\<lambda>i. (str_isdigit (ip_suffixes ! i) \<and> ip_suffixes ! i \<in> set (allowed_ips h)) \<and>
                     ip_suffixes ! i \<notin> set (take i ip_suffixes))
          [0..<length ip_suffixes]) \<and>
   errors (parse_ips h ip_suffixes) =
     map (\<lambda>s. ''Invalid or disallowed IP suffix '' @ [CHR 0x27] @ s @ [CHR 0x27])
       (filter (\<lambda>s. \<not> (str_isdigit s \<and> s \<in> set (allowed_ips h))) ip_suffixes) \<and>
   warnings (parse_ips h ip_suffixes) =
     map (\<lambda>i. ''Skipping duplicate IP suffix '' @ [CHR 0x27] @ ip_suffixes ! i @ [CHR 0x27])
       (filter (\<lambda>i. (str_isdigit (ip_suffixes ! i) \<and> ip_suffixes ! i \<in> set (allowed_ips h)) \<and>
                     ip_suffixes ! i \<in> set (take i ip_suffixes))
          [0..<length ip_suffixes]) \<and>
   (ip_prefix h @ ''.'' @ s \<in> set (valid_ips (parse_ips h ip_suffixes)) \<longleftrightarrow>
      s \<in> set ip_suffixes \<and> str_isdigit s \<and> s \<in> set (allowed_ips h))"
proof -
  have v: "validate_ip_suffix h = (\<lambda>s. str_isdigit s \<and> s \<in> set (allowed_ips h))"
    by (rule ext) (simp add: validate_ip_suffix_def)
  have e: "suffix_error = (\<lambda>s. ''Invalid or disallowed IP suffix '' @ [CHR 0x27] @ s @ [CHR 0x27])"
    by (rule ext) (simp add: suffix_error_def quote_def)
  have w: "duplicate_warning =
      (\<lambda>s. ''Skipping duplicate IP suffix '' @ [CHR 0x27] @ s @ [CHR 0x27])"
    by (rule ext) (simp add: duplicate_warning_def quote_def)
  have m: "host_of h s \<in> set (valid_ips (parse_ips h ip_suffixes)) \<longleftrightarrow>
     s \<in> set ip_suffixes \<and> str_isdigit s \<and> s \<in> set (allowed_ips h)"
    unfolding parse_ips_members by (auto simp: host_of_inj validate_ip_suffix_def)
  have f: "valid_ips (parse_ips h ip_suffixes) =
      map (host_of h) (map ((!) ip_suffixes)
        (filter (\<lambda>i. validate_ip_suffix h (ip_suffixes ! i) \<and>
                      ip_suffixes ! i \<notin> set (take i ip_suffixes))
           [0..<length ip_suffixes])) \<and>
    errors (parse_ips h ip_suffixes) =
      map suffix_error (filter (\<lambda>s. \<not> validate_ip_suffix h s) ip_suffixes) \<and>
    warnings (parse_ips h ip_suffixes) =
      map duplicate_warning (map ((!) ip_suffixes)
        (filter (\<lambda>i. validate_ip_suffix h (ip_suffixes ! i) \<and>
                      ip_suffixes ! i \<in> set (take i ip_suffixes))
           [0..<length ip_suffixes]))"
    using parse_ips_loop_fields[of h ip_suffixes
        "\<lparr>valid_ips = [], errors = [], seen = {}, warnings = []\<rparr>"]
    by (simp add: parse_ips_def)
  show ?thesis
    using m f unfolding v e w by (simp add: host_of_def comp_def)
qed

theorem parse_ips_result_witness:
  "valid_ips (parse_ips test_hub [''1'', ''100'', ''1'', ''2'', ''abc'']) =
     [''10.200.142.1'', ''10.200.142.2''] \<and>
   errors (parse_ips test_hub [''1'', ''100'', ''1'', ''2'', ''abc'']) =
     [''Invalid or disallowed IP suffix '' @ [CHR 0x27] @ ''100'' @ [CHR 0x27],
      ''Invalid or disallowed IP suffix '' @ [CHR 0x27] @ ''abc'' @ [CHR 0x27]] \<and>
   warnings (parse_ips test_hub [''1'', ''100'', ''1'', ''2'', ''abc'']) =
     [''Skipping duplicate IP suffix '' @ [CHR 0x27] @ ''1'' @ [CHR 0x27]]"
proof -
  have v: "str_isdigit ''1'' \<and> ''1'' \<in> set (allowed_ips test_hub)"
    "str_isdigit ''2'' \<and> ''2'' \<in> set (allowed_ips test_hub)"
    "\<not> (str_isdigit ''100'' \<and> ''100'' \<in> set (allowed_ips test_hub))"
    "\<not> (str_isdigit ''abc'' \<and> ''abc'' \<in> set (allowed_ips test_hub))"
    by (simp_all add: test_hub_def str_isdigit_def is_digit_def)
  have u: "[0..<5] = [0, Suc 0, Suc (Suc 0), Suc (Suc (Suc 0)), Suc (Suc (Suc (Suc 0)))]"
    by (simp add: upt_rec)
  have hp: "ip_prefix test_hub = ''10.200.142''" by (simp add: test_hub_def)
  have f1: "filter (\<lambda>i. (str_isdigit ([''1'', ''100'', ''1'', ''2'', ''abc''] ! i) \<and>
                [''1'', ''100'', ''1'', ''2'', ''abc''] ! i \<in> set (allowed_ips test_hub)) \<and>
                [''1'', ''100'', ''1'', ''2'', ''abc''] ! i \<notin>
                  set (take i [''1'', ''100'', ''1'', ''2'', ''abc'']))
          [0..<length [''1'', ''100'', ''1'', ''2'', ''abc'']] = [0, Suc (Suc (Suc 0))]"
    using v by (simp add: u)
  have f2: "filter (\<lambda>i. (str_isdigit ([''1'', ''100'', ''1'', ''2'', ''abc''] ! i) \<and>
                [''1'', ''100'', ''1'', ''2'', ''abc''] ! i \<in> set (allowed_ips test_hub)) \<and>
                [''1'', ''100'', ''1'', ''2'', ''abc''] ! i \<in>
                  set (take i [''1'', ''100'', ''1'', ''2'', ''abc'']))
          [0..<length [''1'', ''100'', ''1'', ''2'', ''abc'']] = [Suc (Suc 0)]"
    using v by (simp add: u)
  have f3: "filter (\<lambda>s. \<not> (str_isdigit s \<and> s \<in> set (allowed_ips test_hub)))
      [''1'', ''100'', ''1'', ''2'', ''abc''] = [''100'', ''abc'']"
    using v by simp
  show ?thesis
    using parse_ips_result[of test_hub "[''1'', ''100'', ''1'', ''2'', ''abc'']" "''1''"]
    by (simp only: f1 f2 f3) (simp add: hp)
qed

theorem parse_ips_repeated_invalid_counterexample:
  "errors (parse_ips test_hub [''abc'', ''abc'']) =
     [''Invalid or disallowed IP suffix '' @ [CHR 0x27] @ ''abc'' @ [CHR 0x27],
      ''Invalid or disallowed IP suffix '' @ [CHR 0x27] @ ''abc'' @ [CHR 0x27]] \<and>
   warnings (parse_ips test_hub [''abc'', ''abc'']) = [] \<and>
   valid_ips (parse_ips test_hub [''abc'', ''abc'']) = []"
  by (simp add: parse_ips_def validate_ip_suffix_def test_hub_def str_isdigit_def
      is_digit_def suffix_error_def quote_def)

text \<open>
  C5 (as amended).  \<open>_expand_range\<close> never raises.  A token \<open>A-B\<close> whose parts are all
  digits, of at most 4300 digits each (the interpreter's default limit for \<open>int()\<close>),
  gives exactly the decimal strings of \<open>A, A+1, \<dots>, B\<close> when \<open>A \<le> B\<close>; it gives
  nothing when \<open>A > B\<close>, and nothing when a part has more than 4300 digits.  A bare
  all-digits token is kept as it is, whatever its length.  More generally a token is
  expanded as a range whenever the text before its first hyphen and the text after it
  are both accepted by \<open>int()\<close> (digits, possibly with a sign, surrounding blanks or
  single underscores between digits) with start at most end.  Every other token gives
  nothing.
\<close>

theorem expand_range_cases:
  "(str_isdigit a \<and> str_isdigit b \<and> length a \<le> 4300 \<and> length b \<le> 4300 \<and>
    digits_val a \<le> digits_val b \<longrightarrow>
      expand_range (a @ ''-'' @ b) = map str_int [int (digits_val a)..int (digits_val b)]) \<and>
   (str_isdigit a \<and> str_isdigit b \<and> digits_val b < digits_val a \<longrightarrow>
      expand_range (a @ ''-'' @ b) = []) \<and>
   (str_isdigit a \<and> str_isdigit b \<and> (4300 < length a \<or> 4300 < length b) \<longrightarrow>
      expand_range (a @ ''-'' @ b) = []) \<and>
   (str_isdigit s \<longrightarrow> expand_range s = [s]) \<and>
   (CHR ''-'' \<notin> set x \<and> py_int x = Some lo \<and> py_int y = Some hi \<and> lo \<le> hi \<longrightarrow>
      expand_range (x @ ''-'' @ y) = map str_int [lo..hi]) \<and>
   (\<not> str_isdigit s \<and>
    (\<forall>x y lo hi. s = x @ ''-'' @ y \<and> CHR ''-'' \<notin> set x \<and>
        py_int x = Some lo \<and> py_int y = Some hi \<longrightarrow> hi < lo) \<longrightarrow>
      expand_range s = [])"
proof (intro conjI impI)
  assume h: "str_isdigit a \<and> str_isdigit b \<and> length a \<le> 4300 \<and> length b \<le> 4300 \<and>
    digits_val a \<le> digits_val b"
  then have "CHR ''-'' \<notin> set a"
    using digits_exclude[OF _ not_digit_chars(1)] by (simp add: str_isdigit_def)
  then show "expand_range (a @ ''-'' @ b) = map str_int [int (digits_val a)..int (digits_val b)]"
    using h expand_range_hyphen[of a b] by (simp add: py_int_digits)
next
  assume h: "str_isdigit a \<and> str_isdigit b \<and> digits_val b < digits_val a"
  then have na: "CHR ''-'' \<notin> set a"
    using digits_exclude[OF _ not_digit_chars(1)] by (simp add: str_isdigit_def)
  have pa: "py_int a = None \<or> py_int a = Some (int (digits_val a))"
    using h py_int_digits[of a] py_int_long[of a] by (cases "length a \<le> 4300") auto
  have pb: "py_int b = None \<or> py_int b = Some (int (digits_val b))"
    using h py_int_digits[of b] py_int_long[of b] by (cases "length b \<le> 4300") auto
  show "expand_range (a @ ''-'' @ b) = []"
    using h pa pb expand_range_hyphen[OF na, of b] by auto
next
  assume h: "str_isdigit a \<and> str_isdigit b \<and> (4300 < length a \<or> 4300 < length b)"
  then have na: "CHR ''-'' \<notin> set a"
    using digits_exclude[OF _ not_digit_chars(1)] by (simp add: str_isdigit_def)
  have "py_int a = None \<or> py_int b = None"
    using h py_int_long[of a] py_int_long[of b] by auto
  then show "expand_range (a @ ''-'' @ b) = []"
    using expand_range_hyphen[OF na, of b] by (auto split: option.splits)
next
  assume "str_isdigit s"
  then show "expand_range s = [s]"
    using hyphen_not_isdigit[of s] by (auto simp: expand_range_def)
next
  assume "CHR ''-'' \<notin> set x \<and> py_int x = Some lo \<and> py_int y = Some hi \<and> lo \<le> hi"
  then show "expand_range (x @ ''-'' @ y) = map str_int [lo..hi]"
    using expand_range_hyphen[of x y] by simp
next
  assume h: "\<not> str_isdigit s \<and>
    (\<forall>x y lo hi. s = x @ ''-'' @ y \<and> CHR ''-'' \<notin> set x \<and>
        py_int x = Some lo \<and> py_int y = Some hi \<longrightarrow> hi < lo)"
  show "expand_range s = []"
  proof (cases "CHR ''-'' \<in> set s")
    case False
    then show ?thesis using h by (simp add: expand_range_def)
  next
    case True
    then obtain x y where xy: "s = x @ CHR ''-'' # y" "CHR ''-'' \<notin> set x"
      "str_split1 (CHR ''-'') s = [x, y]"
      by (rule str_split1_cut)
    have "range_block s = None"
    proof (cases "py_int x")
      case None
      then show ?thesis using xy by (simp add: range_block_def)
    next
      case (Some lo)
      show ?thesis
      proof (cases "py_int y")
        case None
        then show ?thesis using xy Some by (simp add: range_block_def)
      next
        case (Some hi)
        with \<open>py_int x = Some lo\<close> xy h have "hi < lo" by simp
        then show ?thesis using xy Some \<open>py_int x = Some lo\<close> by (simp add: range_block_def)
      qed
    qed
    then show ?thesis using h True by (simp add: expand_range_def)
  qed
qed

theorem expand_range_cases_witness:
  "str_isdigit ''1'' \<and> str_isdigit ''3'' \<and> str_isdigit ''5'' \<and>
   expand_range ''1-3'' = [''1'', ''2'', ''3''] \<and>
   expand_range ''5-3'' = [] \<and>
   expand_range ''5'' = [''5''] \<and>
   \<not> str_isdigit ''abc'' \<and>
   expand_range ''abc'' = [] \<and>
   str_isdigit (replicate 4301 (CHR ''0'')) \<and>
   4300 < length (replicate 4301 (CHR ''0'')) \<and>
   expand_range (replicate 4301 (CHR ''0'') @ ''-'' @ ''1'') = []"
proof -
  have d: "str_isdigit ''1''" "str_isdigit ''3''" "str_isdigit ''5''" "\<not> str_isdigit ''abc''"
    by (simp_all add: str_isdigit_def is_digit_def)
  have z: "str_isdigit (replicate 4301 (CHR ''0''))"
    by (simp add: str_isdigit_def is_digit_def list_all_iff)
  have v: "digits_val ''1'' = 1" "digits_val ''3'' = 3" "digits_val ''5'' = 5"
    by (simp_all add: digits_val_def digit_val_def)
  have r: "map str_int [1..3] = [''1'', ''2'', ''3'']"
    by code_simp
  have no: "\<forall>x y lo hi. ''abc'' = x @ ''-'' @ y \<and> CHR ''-'' \<notin> set x \<and>
        py_int x = Some lo \<and> py_int y = Some hi \<longrightarrow> hi < lo"
  proof (intro allI impI)
    fix x y :: string and lo hi :: int
    assume "''abc'' = x @ ''-'' @ y \<and> CHR ''-'' \<notin> set x \<and>
        py_int x = Some lo \<and> py_int y = Some hi"
    then have "CHR ''-'' \<in> set ''abc''" by (metis in_set_conv_decomp append_Cons append_Nil)
    then show "hi < lo" by simp
  qed
  have "expand_range (''1'' @ ''-'' @ ''3'') = map str_int [int (digits_val ''1'')..int (digits_val ''3'')]"
    using d v expand_range_cases[of "''1''" "''3''"] by simp
  then have a: "expand_range ''1-3'' = [''1'', ''2'', ''3'']" using r v by simp
  have "expand_range (''5'' @ ''-'' @ ''3'') = []"
    using d v expand_range_cases[of "''5''" "''3''"] by simp
  then have b: "expand_range ''5-3'' = []" by simp
  have c: "expand_range ''5'' = [''5'']"
    using d expand_range_cases[of _ _ "''5''"] by blast
  have e: "expand_range ''abc'' = []"
    using d no expand_range_cases[of _ _ "''abc''"] by blast
  have l: "4300 < length (replicate 4301 (CHR ''0''))" by simp
  have f: "expand_range (replicate 4301 (CHR ''0'') @ ''-'' @ ''1'') = []"
    using z d l expand_range_cases[of "replicate 4301 (CHR ''0'')" "''1''"] by blast
  show ?thesis using a b c d e z l f by simp
qed

theorem expand_range_counterexample:
  "expand_range ''+1-3'' = [''1'', ''2'', ''3''] \<and> claimed_expand_range ''+1-3'' = []"
  by code_simp

lemma rep_digits_from_zero:
  "rep_here n (re_here Digit) 0 s k \<longleftrightarrow>
     (\<exists>d r. s = d @ r \<and> list_all is_digit d \<and> length d \<le> n \<and> k r)"
proof (induction n arbitrary: s)
  case 0
  then show ?case by auto
next
  case (Suc n)
  show ?case
  proof
    assume "rep_here (Suc n) (re_here Digit) 0 s k"
    then consider (more) c cs where "s = c # cs" "is_digit c" "rep_here n (re_here Digit) 0 cs k"
      | (stop) "k s"
      by (auto split: list.splits)
    then show "\<exists>d r. s = d @ r \<and> list_all is_digit d \<and> length d \<le> Suc n \<and> k r"
    proof cases
      case more
      then obtain d r where "cs = d @ r" "list_all is_digit d" "length d \<le> n" "k r"
        using Suc.IH by blast
      then have "s = (c # d) @ r \<and> list_all is_digit (c # d) \<and> length (c # d) \<le> Suc n \<and> k r"
        using more by simp
      then show ?thesis by blast
    next
      case stop
      then have "s = [] @ s \<and> list_all is_digit [] \<and> length ([]::string) \<le> Suc n \<and> k s" by simp
      then show ?thesis by blast
    qed
  next
    assume "\<exists>d r. s = d @ r \<and> list_all is_digit d \<and> length d \<le> Suc n \<and> k r"
    then obtain d r where dr: "s = d @ r" "list_all is_digit d" "length d \<le> Suc n" "k r"
      by blast
    show "rep_here (Suc n) (re_here Digit) 0 s k"
    proof (cases d)
      case Nil
      then show ?thesis using dr by simp
    next
      case (Cons c d')
      have "d' @ r = d' @ r \<and> list_all is_digit d' \<and> length d' \<le> n \<and> k r"
        using dr Cons by simp
      then have "\<exists>d2 r2. d' @ r = d2 @ r2 \<and> list_all is_digit d2 \<and> length d2 \<le> n \<and> k r2"
        by blast
      then have "rep_here n (re_here Digit) 0 (d' @ r) k"
        by (simp only: Suc.IH)
      moreover have "is_digit c" using dr Cons by simp
      ultimately show ?thesis using Cons dr by simp
    qed
  qed
qed

lemma digits_1_3:
  "re_here (Rep 1 3 Digit) s k \<longleftrightarrow>
     (\<exists>d r. s = d @ r \<and> str_isdigit d \<and> length d \<le> 3 \<and> k r)"
proof -
  have "re_here (Rep 1 3 Digit) s k \<longleftrightarrow>
     (\<exists>c cs. s = c # cs \<and> is_digit c \<and> rep_here 2 (re_here Digit) 0 cs k)"
    by (simp add: numeral_3_eq_3 numeral_2_eq_2 split: list.splits)
  also have "\<dots> \<longleftrightarrow> (\<exists>c cs d r. s = c # cs \<and> is_digit c \<and> cs = d @ r \<and>
      list_all is_digit d \<and> length d \<le> 2 \<and> k r)"
    by (simp only: rep_digits_from_zero) blast
  also have "\<dots> \<longleftrightarrow> (\<exists>d r. s = d @ r \<and> str_isdigit d \<and> length d \<le> 3 \<and> k r)"
  proof
    assume "\<exists>c cs d r. s = c # cs \<and> is_digit c \<and> cs = d @ r \<and>
      list_all is_digit d \<and> length d \<le> 2 \<and> k r"
    then obtain c d r where "s = (c # d) @ r" "is_digit c" "list_all is_digit d" "length d \<le> 2" "k r"
      by auto
    then have "s = (c # d) @ r \<and> str_isdigit (c # d) \<and> length (c # d) \<le> 3 \<and> k r"
      by (simp add: str_isdigit_def)
    then show "\<exists>d r. s = d @ r \<and> str_isdigit d \<and> length d \<le> 3 \<and> k r" by blast
  next
    assume "\<exists>d r. s = d @ r \<and> str_isdigit d \<and> length d \<le> 3 \<and> k r"
    then obtain d r where dr: "s = d @ r" "str_isdigit d" "length d \<le> 3" "k r" by blast
    then obtain c d' where "d = c # d'" by (cases d) (auto simp: str_isdigit_def)
    then show "\<exists>c cs d r. s = c # cs \<and> is_digit c \<and> cs = d @ r \<and>
      list_all is_digit d \<and> length d \<le> 2 \<and> k r"
      using dr by (auto simp: str_isdigit_def)
  qed
  finally show ?thesis .
qed

lemma prefix_pattern_here:
  "re_here prefix_pattern s k \<longleftrightarrow>
     (\<exists>a b c r. s = a @ CHR ''.'' # b @ CHR ''.'' # c @ r \<and>
        (str_isdigit a \<and> length a \<le> 3) \<and> (str_isdigit b \<and> length b \<le> 3) \<and>
        (str_isdigit c \<and> length c \<le> 3) \<and> k r)"
proof -
  have group: "\<And>s k. re_here (Seq (Rep 1 3 Digit) (Lit (CHR ''.''))) s k \<longleftrightarrow>
      (\<exists>d r. s = d @ CHR ''.'' # r \<and> str_isdigit d \<and> length d \<le> 3 \<and> k r)"
  proof -
    fix s k
    have lit: "\<And>r. re_here (Lit (CHR ''.'')) r k \<longleftrightarrow> (\<exists>r'. r = CHR ''.'' # r' \<and> k r')"
      by (simp split: list.splits)
    show "re_here (Seq (Rep 1 3 Digit) (Lit (CHR ''.''))) s k \<longleftrightarrow>
      (\<exists>d r. s = d @ CHR ''.'' # r \<and> str_isdigit d \<and> length d \<le> 3 \<and> k r)"
      by (simp only: re_here.simps(3) digits_1_3 lit) blast
  qed
  have two: "\<And>s k. re_here (Rep 2 2 (Seq (Rep 1 3 Digit) (Lit (CHR ''.'')))) s k \<longleftrightarrow>
      re_here (Seq (Rep 1 3 Digit) (Lit (CHR ''.''))) s
        (\<lambda>s'. re_here (Seq (Rep 1 3 Digit) (Lit (CHR ''.''))) s' k)"
    by (simp add: numeral_2_eq_2)
  show ?thesis
    unfolding prefix_pattern_def re_here.simps(3)[of "Rep 2 2 (Seq (Rep 1 3 Digit) (Lit (CHR ''.'')))"]
    by (simp only: two group digits_1_3) (auto; blast)
qed


lemma str_split_nonempty: "str_split sep s \<noteq> []"
  by (induction s) (auto split: list.splits)

lemma str_split_no_sep: "sep \<notin> set c \<Longrightarrow> str_split sep c = [c]"
  by (induction c) auto

lemma str_split_append_sep:
  "sep \<notin> set a \<Longrightarrow> str_split sep (a @ sep # r) = a # str_split sep r"
  by (induction a) auto

lemma str_split_head:
  "str_split sep s = w # ws \<Longrightarrow>
     sep \<notin> set w \<and> (if ws = [] then s = w else \<exists>r. s = w @ sep # r \<and> str_split sep r = ws)"
proof (induction s arbitrary: w ws)
  case Nil
  then show ?case by simp
next
  case (Cons c cs)
  show ?case
  proof (cases "c = sep")
    case True
    then show ?thesis using Cons.prems str_split_nonempty[of sep cs] by auto
  next
    case False
    then obtain w' where w': "str_split sep cs = w' # ws" "w = c # w'"
      using Cons.prems str_split_nonempty[of sep cs] by (auto split: list.splits)
    from Cons.IH[OF w'(1)] show ?thesis using False w'(2) by auto
  qed
qed

lemma str_split_three:
  assumes "str_split sep s = [a, b, c]"
  shows "s = a @ sep # b @ sep # c"
proof -
  from str_split_head[OF assms] obtain r where r: "s = a @ sep # r" "str_split sep r = [b, c]"
    by auto
  from str_split_head[OF r(2)] obtain r' where r': "r = b @ sep # r'" "str_split sep r' = [c]"
    by auto
  from str_split_head[OF r'(2)] have "r' = c" by simp
  then show ?thesis using r r' by simp
qed

lemma str_split_dotted:
  assumes "str_isdigit a" "str_isdigit b" "str_isdigit c"
  shows "str_split (CHR ''.'') (a @ CHR ''.'' # b @ CHR ''.'' # c) = [a, b, c]"
proof -
  have "CHR ''.'' \<notin> set a" "CHR ''.'' \<notin> set b" "CHR ''.'' \<notin> set c"
    using assms digits_exclude[OF _ not_digit_chars(4)] by (simp_all add: str_isdigit_def)
  then show ?thesis by (simp add: str_split_append_sep str_split_no_sep)
qed

lemma octets_in_range_digits:
  "list_all (\<lambda>g. str_isdigit g \<and> length g \<le> 3) os \<Longrightarrow>
     octets_in_range os = Inr (list_all (\<lambda>g. digits_val g \<le> 255) os)"
  by (induction os) (auto simp: py_int_digits)

lemma validate_ip_prefix_no_newline:
  assumes "p = [] \<or> last p \<noteq> newline"
  shows "(if \<not> re_match_anchored prefix_pattern p then Inr False
          else octets_in_range (str_split (CHR ''.'') p)) = Inr (three_groups p)"
proof (cases "re_match_anchored prefix_pattern p")
  case True
  then obtain a b c r where m: "p = a @ CHR ''.'' # b @ CHR ''.'' # c @ r"
      "str_isdigit a" "length a \<le> 3" "str_isdigit b" "length b \<le> 3"
      "str_isdigit c" "length c \<le> 3" "dollar r"
    unfolding re_match_anchored_def prefix_pattern_here by blast
  have "r = []"
  proof (rule ccontr)
    assume "r \<noteq> []"
    then have "r = [newline]" using m(8) by (simp add: dollar_def)
    then have "last p = newline" "p \<noteq> []" using m(1) by simp_all
    then show False using assms by simp
  qed
  then have sp: "str_split (CHR ''.'') p = [a, b, c]"
    using m str_split_dotted[of a b c] by simp
  have "octets_in_range [a, b, c] =
      Inr (digits_val a \<le> 255 \<and> digits_val b \<le> 255 \<and> digits_val c \<le> 255)"
    using octets_in_range_digits[of "[a, b, c]"] m by simp
  moreover have "three_groups p \<longleftrightarrow>
      digits_val a \<le> 255 \<and> digits_val b \<le> 255 \<and> digits_val c \<le> 255"
    unfolding three_groups_def sp using m(2-7) by (simp add: octet_group_def)
  ultimately show ?thesis using True sp by simp
next
  case False
  have "\<not> three_groups p"
  proof
    assume t: "three_groups p"
    then obtain a b c where sp: "str_split (CHR ''.'') p = [a, b, c]"
      and g: "octet_group a" "octet_group b" "octet_group c"
      by (auto simp: three_groups_def split: list.splits)
    have "p = a @ CHR ''.'' # b @ CHR ''.'' # c @ [] \<and>
        (str_isdigit a \<and> length a \<le> 3) \<and> (str_isdigit b \<and> length b \<le> 3) \<and>
        (str_isdigit c \<and> length c \<le> 3) \<and> dollar []"
      using str_split_three[OF sp] g by (simp add: octet_group_def dollar_def)
    then have "\<exists>a b c r. p = a @ CHR ''.'' # b @ CHR ''.'' # c @ r \<and>
        (str_isdigit a \<and> length a \<le> 3) \<and> (str_isdigit b \<and> length b \<le> 3) \<and>
        (str_isdigit c \<and> length c \<le> 3) \<and> dollar r"
      by blast
    then have "re_match_anchored prefix_pattern p"
      by (simp only: re_match_anchored_def prefix_pattern_here)
    then show False using False by simp
  qed
  then show ?thesis using False by simp
qed

text \<open>
  C7 (as amended).  \<open>_validate_ip_prefix\<close> never raises.  It strips every trailing dot
  of the raw string and then, provided what is left does not end in a line feed, accepts
  it if and only if it consists of exactly three dot-separated groups of one to three
  digits, each of value at most 255.  In particular \<open>192.168.1\<close> and \<open>192.168.1.\<close> are
  accepted, \<open>256.1.1\<close> and \<open>192.168\<close> are rejected.
\<close>

theorem validate_ip_prefix_groups:
  "(str_rstrip ''.'' raw = [] \<or> last (str_rstrip ''.'' raw) \<noteq> newline \<longrightarrow>
      validate_ip_prefix raw = Inr (three_groups (str_rstrip ''.'' raw))) \<and>
   validate_ip_prefix ''192.168.1'' = Inr True \<and>
   validate_ip_prefix ''192.168.1.'' = Inr True \<and>
   validate_ip_prefix ''256.1.1'' = Inr False \<and>
   validate_ip_prefix ''192.168'' = Inr False"
proof (intro conjI impI)
  assume "str_rstrip ''.'' raw = [] \<or> last (str_rstrip ''.'' raw) \<noteq> newline"
  then show "validate_ip_prefix raw = Inr (three_groups (str_rstrip ''.'' raw))"
    using validate_ip_prefix_no_newline[of "str_rstrip ''.'' raw"]
    by (simp add: validate_ip_prefix_def Let_def)
next
  show "validate_ip_prefix ''192.168.1'' = Inr True" by code_simp
next
  show "validate_ip_prefix ''192.168.1.'' = Inr True" by code_simp
next
  show "validate_ip_prefix ''256.1.1'' = Inr False" by code_simp
next
  show "validate_ip_prefix ''192.168'' = Inr False" by code_simp
qed

theorem validate_ip_prefix_groups_witness:
  "str_rstrip ''.'' ''172.16.10.'' = ''172.16.10'' \<and>
   last ''172.16.10'' \<noteq> newline \<and>
   three_groups ''172.16.10'' \<and>
   validate_ip_prefix ''172.16.10.'' = Inr True"
proof -
  have r: "str_rstrip ''.'' ''172.16.10.'' = ''172.16.10''"
    by (simp add: str_rstrip_def)
  have l: "last ''172.16.10'' \<noteq> newline"
    by (simp add: newline_def)
  have t: "three_groups ''172.16.10''"
    by code_simp
  show ?thesis
    using r l t validate_ip_prefix_groups[of "''172.16.10.''"] by simp
qed

theorem validate_ip_prefix_counterexample:
  "validate_ip_prefix ''192.168.1..'' = Inr True \<and> \<not> claimed_validate_prefix ''192.168.1..''"
  by code_simp

text \<open>
  The end anchor of the pattern also matches before a final line feed, and \<open>int()\<close>
  skips that line feed, so a prefix followed by a line feed is accepted although its
  last group is not made of digits only.
\<close>

lemma validate_ip_prefix_trailing_newline:
  "validate_ip_prefix (''192.168.1'' @ [newline]) = Inr True \<and>
   \<not> three_groups (''192.168.1'' @ [newline])"
  by code_simp

end
